theory Spec2Isabelle
  imports Complex_Main
begin

section \<open>Game of Life (gameOfLife.js): the program\<close>

text \<open>
  The script keeps its state in globals: the 2D array \<open>board\<close>, the flag
  \<open>isPlaying\<close>, and the DOM objects \<open>canvas\<close> and \<open>playButton\<close>. The model
  passes a record of that state through every function. A JavaScript exception
  (the only one this script can raise is the \<open>TypeError\<close> of indexing
  \<open>undefined\<close>) is the \<open>Inl\<close> branch of a sum.
\<close>

subsection \<open>JavaScript values\<close>

text \<open>
  A tile coordinate is a JavaScript number. The script only ever produces
  integers (loop counters, \<open>Math.floor\<close> of a quotient) or, when a quotient
  has divisor 0, one of the three non-finite numbers.
\<close>

datatype jsnum = JInt int | PosInf | NegInf | NaN

datatype error = TypeError

text \<open>One call of \<open>context.fillRect\<close>, with the fill style in force: colour, x, y, width, height.\<close>

datatype draw = FillRect string rat rat rat rat

subsection \<open>Constants (lines 33-53)\<close>

definition NUM_TILES_WIDE :: int where "NUM_TILES_WIDE = 25"
definition NUM_TILES_HIGH :: int where "NUM_TILES_HIGH = 25"

definition DEAD :: int where "DEAD = 1"
definition ALIVE :: int where "ALIVE = 2"
definition PENDING_DEAD :: int where "PENDING_DEAD = 3"
definition PENDING_ALIVE :: int where "PENDING_ALIVE = 4"

definition DEAD_COLOR :: string where "DEAD_COLOR = ''black''"
definition ALIVE_COLOR :: string where "ALIVE_COLOR = ''yellow''"

subsection \<open>The state\<close>

text \<open>
  \<open>board\<close> is an array of \<open>NUM_TILES_WIDE\<close> arrays (lines 56-63); the outer
  array is never assigned to afterwards, so \<open>board[x]\<close> is an array exactly for
  the integers \<open>0 \<le> x < NUM_TILES_WIDE\<close> and \<open>undefined\<close> for every other
  \<open>x\<close> (see \<open>board_row\<close>). An inner array is a JavaScript object: any number
  is a property key of it, a key never assigned reads as \<open>undefined\<close>
  (\<open>None\<close>), and an assignment beyond its length extends it. The field
  \<open>board\<close> gives the inner arrays by their index; its value at an index
  outside \<open>[0, NUM_TILES_WIDE)\<close> is never read or written.

  \<open>CANVAS_WIDTH\<close> and \<open>CANVAS_HEIGHT\<close> are read from the page's canvas
  element (an unsigned long), which is not part of the script: they are
  parameters of the state. \<open>canvas\<close> is the sequence of rectangles drawn so
  far. \<open>writes\<close> records every assignment \<open>board[x][y] = v\<close> in program
  order; no function reads it.
\<close>

record state =
  CANVAS_WIDTH :: nat
  CANVAS_HEIGHT :: nat
  board :: "int \<Rightarrow> jsnum \<Rightarrow> int option"
  isPlaying :: bool
  playButton_value :: string
  canvas :: "draw list"
  writes :: "(jsnum \<times> jsnum \<times> int) list"

definition TILE_WIDTH :: "'a state_scheme \<Rightarrow> rat" where
  "TILE_WIDTH s = of_nat (CANVAS_WIDTH s) / of_int NUM_TILES_WIDE"

definition TILE_HEIGHT :: "'a state_scheme \<Rightarrow> rat" where
  "TILE_HEIGHT s = of_nat (CANVAS_HEIGHT s) / of_int NUM_TILES_HIGH"

text \<open>\<open>board[x]\<close>: the index of the inner array, or \<open>None\<close> when \<open>board[x]\<close> is \<open>undefined\<close>.\<close>

definition board_row :: "jsnum \<Rightarrow> int option" where
  "board_row x =
     (case x of
        JInt i \<Rightarrow> if 0 \<le> i \<and> i < NUM_TILES_WIDE then Some i else None
      | _ \<Rightarrow> None)"

text \<open>The expression \<open>board[xPos][yPos]\<close> read as a value: a \<open>TypeError\<close> when \<open>board[xPos]\<close> is \<open>undefined\<close>.\<close>

definition board_get :: "state \<Rightarrow> jsnum \<Rightarrow> jsnum \<Rightarrow> error + int option" where
  "board_get s xPos yPos =
     (case board_row xPos of
        None \<Rightarrow> Inl TypeError
      | Some i \<Rightarrow> Inr (board s i yPos))"

definition bind_err :: "error + 'a \<Rightarrow> ('a \<Rightarrow> error + 'b) \<Rightarrow> error + 'b" where
  "bind_err m f = (case m of Inl e \<Rightarrow> Inl e | Inr v \<Rightarrow> f v)"

subsection \<open>Loops\<close>

text \<open>\<open>for (var i = i0; i < n; i++) body\<close>, the loop state passed through \<open>body\<close>.\<close>

function for_lt :: "int \<Rightarrow> int \<Rightarrow> (int \<Rightarrow> 'a \<Rightarrow> error + 'a) \<Rightarrow> 'a \<Rightarrow> error + 'a" where
  "for_lt i n body s =
     (if i < n then
        (case body i s of Inl e \<Rightarrow> Inl e | Inr s' \<Rightarrow> for_lt (i + 1) n body s')
      else Inr s)"
  by pat_completeness auto
termination
  by (relation "measure (\<lambda>(i, n, body, s). nat (n - i))") auto

declare for_lt.simps [simp del]

text \<open>\<open>for (var i = i0; i <= n; i++) body\<close>.\<close>

function for_le :: "int \<Rightarrow> int \<Rightarrow> (int \<Rightarrow> 'a \<Rightarrow> error + 'a) \<Rightarrow> 'a \<Rightarrow> error + 'a" where
  "for_le i n body s =
     (if i \<le> n then
        (case body i s of Inl e \<Rightarrow> Inl e | Inr s' \<Rightarrow> for_le (i + 1) n body s')
      else Inr s)"
  by pat_completeness auto
termination
  by (relation "measure (\<lambda>(i, n, body, s). nat (n + 1 - i))") auto

declare for_le.simps [simp del]

subsection \<open>drawTile, setTile (lines 103-124)\<close>

text \<open>
  \<open>fillRect\<close> draws nothing when one of its arguments is not finite. Inside
  \<open>setTile\<close> the call is reached only after \<open>board[xPos]\<close> was indexed, so
  \<open>xPos\<close> is an integer there; \<open>yPos\<close> need not be.
\<close>

definition drawTile :: "jsnum \<Rightarrow> jsnum \<Rightarrow> string \<Rightarrow> state \<Rightarrow> state" where
  "drawTile xPos yPos color s =
     (case (xPos, yPos) of
        (JInt i, JInt j) \<Rightarrow>
          s\<lparr>canvas := canvas s @
              [FillRect color (of_int i * TILE_WIDTH s) (of_int j * TILE_HEIGHT s)
                 (TILE_WIDTH s - 1) (TILE_HEIGHT s - 1)]\<rparr>
      | _ \<Rightarrow> s)"

definition setTile :: "jsnum \<Rightarrow> jsnum \<Rightarrow> int \<Rightarrow> state \<Rightarrow> error + state" where
  "setTile xPos yPos lifeStatus s =
     (case board_row xPos of
        None \<Rightarrow> Inl TypeError
      | Some i \<Rightarrow>
          (let s1 = s\<lparr>board := (board s)(i := (board s i)(yPos := Some lifeStatus)),
                      writes := writes s @ [(xPos, yPos, lifeStatus)]\<rparr>
           in if lifeStatus = DEAD then Inr (drawTile xPos yPos DEAD_COLOR s1)
              else if lifeStatus = ALIVE then Inr (drawTile xPos yPos ALIVE_COLOR s1)
              else Inr s1))"

subsection \<open>clearBoard (lines 85-93)\<close>

definition clearBoard :: "state \<Rightarrow> error + state" where
  "clearBoard s =
     for_lt 0 NUM_TILES_WIDE (\<lambda>i.
       for_lt 0 NUM_TILES_HIGH (\<lambda>j. setTile (JInt i) (JInt j) DEAD))
       (s\<lparr>playButton_value := ''Play'', isPlaying := False\<rparr>)"

subsection \<open>mousePositionToTile, changeTile (lines 133-160)\<close>

text \<open>
  \<open>Math.floor(a / b)\<close> for a finite \<open>a\<close> and a finite \<open>b \<ge> 0\<close>
  (\<open>TILE_WIDTH\<close> and \<open>TILE_HEIGHT\<close> are quotients of an unsigned long by 25).
  The double-precision quotient is taken exactly.
\<close>

definition floor_div :: "rat \<Rightarrow> rat \<Rightarrow> jsnum" where
  "floor_div a b =
     (if b = 0 then (if 0 < a then PosInf else if a < 0 then NegInf else NaN)
      else JInt \<lfloor>a / b\<rfloor>)"

definition mousePositionToTile :: "state \<Rightarrow> rat \<Rightarrow> rat \<Rightarrow> jsnum \<times> jsnum" where
  "mousePositionToTile s xMousePos yMousePos =
     (let xPos = floor_div xMousePos (TILE_WIDTH s);
          yPos = floor_div yMousePos (TILE_HEIGHT s)
      in (xPos, yPos))"

text \<open>The mouse event, as far as the script reads it.\<close>

record event =
  offsetX :: rat
  offsetY :: rat

definition changeTile :: "event \<Rightarrow> state \<Rightarrow> error + state" where
  "changeTile ev s =
     (if \<not> isPlaying s then
        (let mouseCoordinates = mousePositionToTile s (offsetX ev) (offsetY ev);
             xPos = fst mouseCoordinates;
             yPos = snd mouseCoordinates
         in bind_err (board_get s xPos yPos) (\<lambda>c.
              if c = Some DEAD then setTile xPos yPos ALIVE s
              else setTile xPos yPos DEAD s))
      else Inr s)"

subsection \<open>isTileAlive, getNumAliveNeighbors (lines 214-240)\<close>

definition isTileAlive :: "state \<Rightarrow> jsnum \<Rightarrow> jsnum \<Rightarrow> error + bool" where
  "isTileAlive s xPos yPos =
     bind_err (board_get s xPos yPos) (\<lambda>c.
       if c = Some ALIVE then Inr True
       else bind_err (board_get s xPos yPos) (\<lambda>c'. Inr (c' = Some PENDING_DEAD)))"

definition getNumAliveNeighbors :: "state \<Rightarrow> int \<Rightarrow> int \<Rightarrow> error + int" where
  "getNumAliveNeighbors s xPos yPos =
     for_le (xPos - 1) (xPos + 1) (\<lambda>i.
       for_le (yPos - 1) (yPos + 1) (\<lambda>j numAliveNeighbors.
         if i \<ge> 0 \<and> i < NUM_TILES_WIDE \<and> j \<ge> 0 \<and> j < NUM_TILES_HIGH \<and>
            \<not> (i = xPos \<and> j = yPos)
         then bind_err (isTileAlive s (JInt i) (JInt j)) (\<lambda>a.
                if a then Inr (numAliveNeighbors + 1) else Inr numAliveNeighbors)
         else Inr numAliveNeighbors))
       0"

subsection \<open>refreshBoard, playGame, playOrPause (lines 173-205, 248-258)\<close>

definition refreshBoard :: "state \<Rightarrow> error + state" where
  "refreshBoard s =
     for_lt 0 NUM_TILES_WIDE (\<lambda>i.
       for_lt 0 NUM_TILES_HIGH (\<lambda>j t.
         bind_err (board_get t (JInt i) (JInt j)) (\<lambda>c.
           if c = Some PENDING_DEAD then setTile (JInt i) (JInt j) DEAD t
           else if c = Some PENDING_ALIVE then setTile (JInt i) (JInt j) ALIVE t
           else Inr t)))
       s"

definition playGame :: "state \<Rightarrow> error + state" where
  "playGame s =
     (if isPlaying s then
        bind_err
          (for_lt 0 NUM_TILES_WIDE (\<lambda>i.
             for_lt 0 NUM_TILES_HIGH (\<lambda>j t.
               bind_err (getNumAliveNeighbors t i j) (\<lambda>numAliveNeighbors.
               bind_err (board_get t (JInt i) (JInt j)) (\<lambda>c.
                 if c = Some ALIVE \<and> (numAliveNeighbors < 2 \<or> numAliveNeighbors > 3)
                 then setTile (JInt i) (JInt j) PENDING_DEAD t
                 else if c = Some DEAD \<and> numAliveNeighbors = 3
                 then setTile (JInt i) (JInt j) PENDING_ALIVE t
                 else Inr t))))
             s)
          refreshBoard
      else Inr s)"

definition playOrPause :: "state \<Rightarrow> state" where
  "playOrPause s =
     (if isPlaying s then s\<lparr>playButton_value := ''Play'', isPlaying := False\<rparr>
      else s\<lparr>playButton_value := ''Pause'', isPlaying := True\<rparr>)"

subsection \<open>The event loop\<close>

text \<open>
  The page calls \<open>setup\<close> (here \<open>setup_page\<close>) once, then the handlers
  it registered: \<open>changeTile\<close> on a mouse press, \<open>playOrPause\<close> and
  \<open>clearBoard\<close> on the buttons, \<open>playGame\<close> on the timer. An exception ends
  the handler that raised it and the page goes on with the next event. The only
  handler that can raise is \<open>changeTile\<close> (lemma \<open>handlers_return\<close>), in
  its first access to \<open>board\<close>, before it has changed anything: the state
  after a raise is the state before the handler.
\<close>

definition setup_page :: "state \<Rightarrow> error + state" where
  "setup_page s = clearBoard s"

definition handle :: "(state \<Rightarrow> error + state) \<Rightarrow> state \<Rightarrow> state" where
  "handle h s = (case h s of Inl e \<Rightarrow> s | Inr s' \<Rightarrow> s')"

datatype action = Edit event | PlayPause | Reset | Tick

fun step :: "action \<Rightarrow> state \<Rightarrow> state" where
  "step (Edit ev) s = handle (changeTile ev) s"
| "step PlayPause s = playOrPause s"
| "step Reset s = handle clearBoard s"
| "step Tick s = handle playGame s"

definition run :: "action list \<Rightarrow> state \<Rightarrow> state" where
  "run ops s = fold step ops s"

section \<open>Notions of the specification\<close>

definition in_grid :: "int \<Rightarrow> int \<Rightarrow> bool" where
  "in_grid x y \<longleftrightarrow> 0 \<le> x \<and> x < NUM_TILES_WIDE \<and> 0 \<le> y \<and> y < NUM_TILES_HIGH"

text \<open>The grid cell \<open>(x, y)\<close>: \<open>board[x][y]\<close> for integers \<open>x\<close>, \<open>y\<close>.\<close>

definition cell :: "state \<Rightarrow> int \<Rightarrow> int \<Rightarrow> int option" where
  "cell s x y = board s x (JInt y)"

text \<open>Every cell of the grid is Dead or Alive.\<close>

definition no_pending :: "state \<Rightarrow> bool" where
  "no_pending s \<longleftrightarrow>
     (\<forall>x \<in> {0 ..< NUM_TILES_WIDE}. \<forall>y \<in> {0 ..< NUM_TILES_HIGH}.
        cell s x y = Some DEAD \<or> cell s x y = Some ALIVE)"

text \<open>What the specification's \<open>isAlive\<close> says of a cell value.\<close>

definition counts_alive :: "int option \<Rightarrow> bool" where
  "counts_alive c \<longleftrightarrow> c = Some ALIVE \<or> c = Some PENDING_DEAD"

text \<open>
  The cells at Chebyshev distance 1 of \<open>(x, y)\<close> that lie in the grid, without
  wraparound and without \<open>(x, y)\<close> itself.
\<close>

definition neighbours :: "int \<Rightarrow> int \<Rightarrow> (int \<times> int) list" where
  "neighbours x y =
     filter (\<lambda>(i, j). in_grid i j \<and> (i, j) \<noteq> (x, y))
       (List.product [x - 1 .. x + 1] [y - 1 .. y + 1])"

definition alive_neighbours :: "state \<Rightarrow> int \<Rightarrow> int \<Rightarrow> int" where
  "alive_neighbours s x y =
     int (length (filter (\<lambda>(i, j). counts_alive (cell s i j)) (neighbours x y)))"

text \<open>Conway's rule: the next state of a cell in state \<open>c\<close> with \<open>n\<close> living neighbours.\<close>

definition conway :: "int option \<Rightarrow> int \<Rightarrow> int option" where
  "conway c n =
     (if c = Some ALIVE \<and> (n < 2 \<or> n > 3) then Some DEAD
      else if c = Some DEAD \<and> n = 3 then Some ALIVE
      else c)"

text \<open>Proof devices: what phase 1 leaves in a cell, and what phase 2 makes of it.\<close>

definition mark :: "int option \<Rightarrow> int \<Rightarrow> int option" where
  "mark c n =
     (if c = Some ALIVE \<and> (n < 2 \<or> n > 3) then Some PENDING_DEAD
      else if c = Some DEAD \<and> n = 3 then Some PENDING_ALIVE
      else c)"

definition settle :: "int option \<Rightarrow> int option" where
  "settle c =
     (if c = Some PENDING_DEAD then Some DEAD
      else if c = Some PENDING_ALIVE then Some ALIVE
      else c)"

text \<open>
  Proof devices. \<open>nb_ind\<close> is what one round of the inner loop of
  \<open>getNumAliveNeighbors\<close> adds to the counter. \<open>swept f s i j t\<close> says that
  \<open>t\<close> is \<open>s\<close> after a row-major pass has reached \<open>(i, j)\<close>: the grid cells
  before \<open>(i, j)\<close> hold \<open>f\<close>, the others what they held in \<open>s\<close>.
  \<open>same_run s1 s2 t1 t2\<close> relates two executions started in \<open>s1\<close> and
  \<open>s2\<close>: same board, same flag, same writes since the start.
\<close>

definition nb_ind :: "state \<Rightarrow> int \<Rightarrow> int \<Rightarrow> int \<Rightarrow> int \<Rightarrow> int" where
  "nb_ind s x y i j =
     (if (in_grid i j \<and> (i, j) \<noteq> (x, y)) \<and> counts_alive (cell s i j) then 1 else 0)"

definition swept :: "(int \<Rightarrow> int \<Rightarrow> int option) \<Rightarrow> state \<Rightarrow> int \<Rightarrow> int \<Rightarrow> state \<Rightarrow> bool" where
  "swept f s i j t \<longleftrightarrow>
     (\<forall>a b. in_grid a b \<longrightarrow>
        cell t a b = (if a < i \<or> (a = i \<and> b < j) then f a b else cell s a b))"

definition same_run :: "state \<Rightarrow> state \<Rightarrow> state \<Rightarrow> state \<Rightarrow> bool" where
  "same_run s1 s2 t1 t2 \<longleftrightarrow>
     board t1 = board t2 \<and> isPlaying t1 = isPlaying t2 \<and>
     (\<exists>ws. writes t1 = writes s1 @ ws \<and> writes t2 = writes s2 @ ws)"

section \<open>Example states\<close>

text \<open>
  \<open>fresh\<close>: a page with a 500 by 500 canvas once the script is loaded, before
  \<open>setup\<close>. \<open>blinker\<close>: three living cells in column 12 of an otherwise
  dead grid, the game running.
\<close>

definition fresh :: state where
  "fresh = \<lparr>CANVAS_WIDTH = 500, CANVAS_HEIGHT = 500, board = (\<lambda>_ _. None), isPlaying = False,
      playButton_value = ''Play'', canvas = [], writes = []\<rparr>"

definition blinker :: state where
  "blinker = fresh\<lparr>board := (\<lambda>i j. case j of
        JInt b \<Rightarrow> if in_grid i b then Some (if i = 12 \<and> 11 \<le> b \<and> b \<le> 13 then ALIVE else DEAD)
                  else None
      | _ \<Rightarrow> None), isPlaying := True\<rparr>"

definition paused_blinker :: state where
  "paused_blinker = blinker\<lparr>isPlaying := False\<rparr>"

definition other_page :: state where
  "other_page = blinker\<lparr>CANVAS_WIDTH := 250, CANVAS_HEIGHT := 100, playButton_value := ''Pause'',
      canvas := [FillRect ''black'' 0 0 9 3], writes := [(JInt 0, JInt 0, DEAD)]\<rparr>"

definition all_pending_alive :: state where
  "all_pending_alive = fresh\<lparr>board := (\<lambda>_ _. Some PENDING_ALIVE)\<rparr>"

section \<open>Loops\<close>

lemma for_lt_done: "\<not> i < n \<Longrightarrow> for_lt i n body s = Inr s"
  by (subst for_lt.simps) simp

lemma for_lt_step:
  "i < n \<Longrightarrow> for_lt i n body s =
     (case body i s of Inl e \<Rightarrow> Inl e | Inr s' \<Rightarrow> for_lt (i + 1) n body s')"
  by (subst for_lt.simps) simp

lemma for_lt_rule:
  assumes "lo \<le> hi" and "I lo s"
    and "\<And>i t. lo \<le> i \<Longrightarrow> i < hi \<Longrightarrow> I i t \<Longrightarrow> \<exists>t'. body i t = Inr t' \<and> I (i + 1) t'"
  shows "\<exists>t'. for_lt lo hi body s = Inr t' \<and> I hi t'"
  using assms
proof (induction lo hi body s rule: for_lt.induct)
  case (1 i n body s)
  show ?case
  proof (cases "i < n")
    case True
    with 1(2-) obtain t where t: "body i s = Inr t" "I (i + 1) t" by force
    have "\<exists>t'. for_lt (i + 1) n body t = Inr t' \<and> I n t'"
      using 1(1)[OF True t(1)] True t(2) 1(4) by force
    then show ?thesis using True t(1) by (subst for_lt.simps) simp
  next
    case False
    with 1(2) have "i = n" by simp
    then show ?thesis using 1(3) by (subst for_lt.simps) simp
  qed
qed

lemma for_le_lt: "for_le i n body s = for_lt i (n + 1) body s"
proof (induction i n body s rule: for_le.induct)
  case (1 i n body s)
  show ?case
    apply (subst for_le.simps) apply (subst for_lt.simps)
    using 1 by (auto split: sum.splits)
qed

lemma for_lt_sum:
  "lo \<le> hi \<Longrightarrow> for_lt lo hi (\<lambda>i acc. Inr (acc + g i)) (a::int) = Inr (a + sum_list (map g [lo .. hi - 1]))"
proof (induction lo hi "(\<lambda>i (acc::int). (Inr (acc + g i) :: error + int))" a rule: for_lt.induct)
  case (1 i n s)
  show ?case
  proof (cases "i < n")
    case True
    have "[i .. n - 1] = i # [i + 1 .. n - 1]" using True by (simp add: upto_rec1)
    then show ?thesis using True 1 by (subst for_lt.simps) (simp add: algebra_simps)
  next
    case False
    then show ?thesis using 1(2) by (subst for_lt.simps) simp
  qed
qed

lemma for_lt_rule2:
  assumes "lo \<le> hi" and "R lo s1 s2"
    and "\<And>i t1 t2. lo \<le> i \<Longrightarrow> i < hi \<Longrightarrow> R i t1 t2 \<Longrightarrow>
           \<exists>u1 u2. b1 i t1 = Inr u1 \<and> b2 i t2 = Inr u2 \<and> R (i + 1) u1 u2"
  shows "\<exists>u1 u2. for_lt lo hi b1 s1 = Inr u1 \<and> for_lt lo hi b2 s2 = Inr u2 \<and> R hi u1 u2"
  using assms
proof (induction lo hi b1 s1 arbitrary: s2 rule: for_lt.induct)
  case (1 i n b1 s1)
  show ?case
  proof (cases "i < n")
    case True
    with 1(2-) obtain u1 u2 where u: "b1 i s1 = Inr u1" "b2 i s2 = Inr u2" "R (i + 1) u1 u2"
      by force
    have "\<exists>v1 v2. for_lt (i + 1) n b1 u1 = Inr v1 \<and> for_lt (i + 1) n b2 u2 = Inr v2 \<and> R n v1 v2"
      using 1(1) [OF True u(1), of u2] True u(3) 1(4) by force
    then show ?thesis
      using True u(1,2) by (simp add: for_lt_step)
  next
    case False
    with 1(2) have "i = n" by simp
    then show ?thesis using 1(3) by (simp add: for_lt_done)
  qed
qed

lemma for_le_sum:
  "lo \<le> hi + 1 \<Longrightarrow>
   for_le lo hi (\<lambda>i acc. Inr (acc + g i)) (a::int) = Inr (a + sum_list (map g [lo .. hi]))"
  using for_lt_sum [of lo "hi + 1" g a] by (simp add: for_le_lt)

section \<open>Accessors and the neighbour count\<close>

lemma board_row_JInt: "board_row (JInt i) = (if 0 \<le> i \<and> i < NUM_TILES_WIDE then Some i else None)"
  by (simp add: board_row_def)

lemma drawTile_fields [simp]:
  "board (drawTile x y c s) = board s"
  "isPlaying (drawTile x y c s) = isPlaying s"
  "playButton_value (drawTile x y c s) = playButton_value s"
  "writes (drawTile x y c s) = writes s"
  "CANVAS_WIDTH (drawTile x y c s) = CANVAS_WIDTH s"
  "CANVAS_HEIGHT (drawTile x y c s) = CANVAS_HEIGHT s"
  by (simp_all add: drawTile_def split: jsnum.splits)

lemma setTile_row:
  assumes "board_row x = Some i"
  shows "\<exists>t'. setTile x y v t = Inr t' \<and>
           board t' = (board t)(i := (board t i)(y := Some v)) \<and>
           isPlaying t' = isPlaying t \<and>
           playButton_value t' = playButton_value t \<and>
           CANVAS_WIDTH t' = CANVAS_WIDTH t \<and> CANVAS_HEIGHT t' = CANVAS_HEIGHT t \<and>
           writes t' = writes t @ [(x, y, v)]"
  using assms by (simp add: setTile_def Let_def)

lemma setTile_cell:
  assumes "0 \<le> i" "i < NUM_TILES_WIDE"
  shows "\<exists>t'. setTile (JInt i) (JInt j) v t = Inr t' \<and>
           (\<forall>a b. cell t' a b = (if a = i \<and> b = j then Some v else cell t a b)) \<and>
           isPlaying t' = isPlaying t \<and> playButton_value t' = playButton_value t"
proof -
  have "board_row (JInt i) = Some i" using assms by (simp add: board_row_JInt)
  from setTile_row [OF this, of "JInt j" v t] show ?thesis
    by (auto simp: cell_def)
qed

lemma board_get_JInt:
  "0 \<le> i \<Longrightarrow> i < NUM_TILES_WIDE \<Longrightarrow> board_get s (JInt i) (JInt j) = Inr (cell s i j)"
  by (simp add: board_get_def board_row_JInt cell_def)

lemma isTileAlive_JInt:
  "0 \<le> i \<Longrightarrow> i < NUM_TILES_WIDE \<Longrightarrow>
   isTileAlive s (JInt i) (JInt j) = Inr (counts_alive (cell s i j))"
  by (simp add: isTileAlive_def board_get_JInt bind_err_def counts_alive_def)

lemma neighbour_body:
  "(\<lambda>j numAliveNeighbors.
         if i \<ge> 0 \<and> i < NUM_TILES_WIDE \<and> j \<ge> 0 \<and> j < NUM_TILES_HIGH \<and>
            \<not> (i = xPos \<and> j = yPos)
         then bind_err (isTileAlive s (JInt i) (JInt j)) (\<lambda>a.
                if a then Inr (numAliveNeighbors + 1) else Inr numAliveNeighbors)
         else Inr numAliveNeighbors)
   = (\<lambda>j acc. Inr (acc + nb_ind s xPos yPos i j))"
  by (intro ext) (simp add: nb_ind_def in_grid_def isTileAlive_JInt bind_err_def)

lemma sum_list_product:
  "sum_list (map (\<lambda>i. sum_list (map (g i) ys)) xs) =
   (sum_list (map (\<lambda>(i, j). g i j) (List.product xs ys)) :: int)"
  by (induction xs) (simp_all add: comp_def)

lemma length_filter_sum:
  "int (length (filter P (filter Q xs))) = sum_list (map (\<lambda>p. if Q p \<and> P p then 1 else 0) xs)"
  by (induction xs) simp_all

lemma getNumAliveNeighbors_eq:
  "getNumAliveNeighbors s x y = Inr (alive_neighbours s x y)"
proof -
  have inner: "\<And>i. for_le (y - 1) (y + 1) (\<lambda>j acc. Inr (acc + nb_ind s x y i j))
      = (\<lambda>acc. Inr (acc + sum_list (map (nb_ind s x y i) [y - 1 .. y + 1])))"
    by (intro ext) (simp add: for_le_sum)
  have "getNumAliveNeighbors s x y =
      Inr (0 + sum_list (map (\<lambda>i. sum_list (map (nb_ind s x y i) [y - 1 .. y + 1])) [x - 1 .. x + 1]))"
    unfolding getNumAliveNeighbors_def neighbour_body inner
    by (simp add: for_le_sum)
  also have "\<dots> = Inr (alive_neighbours s x y)"
    unfolding alive_neighbours_def neighbours_def length_filter_sum sum_list_product
    by (simp add: nb_ind_def case_prod_unfold prod_eq_iff)
  finally show ?thesis .
qed

lemma no_pending_iff:
  "no_pending s \<longleftrightarrow> (\<forall>a b. in_grid a b \<longrightarrow> cell s a b = Some DEAD \<or> cell s a b = Some ALIVE)"
  unfolding no_pending_def in_grid_def Ball_def atLeastLessThan_iff by blast

lemma in_grid_neighbours: "(a, b) \<in> set (neighbours x y) \<Longrightarrow> in_grid a b"
  by (auto simp: neighbours_def)

lemma alive_neighbours_cong:
  assumes "\<forall>a b. in_grid a b \<longrightarrow> counts_alive (cell t a b) = counts_alive (cell s a b)"
  shows "alive_neighbours t x y = alive_neighbours s x y"
proof -
  have "filter (\<lambda>(i, j). counts_alive (cell t i j)) (neighbours x y) =
        filter (\<lambda>(i, j). counts_alive (cell s i j)) (neighbours x y)"
    by (rule filter_cong) (use assms in_grid_neighbours in auto)
  then show ?thesis by (simp add: alive_neighbours_def)
qed

lemma upto_around: "[x - 1 .. x + 1] = [x - 1, x, x + 1]"
  by (simp add: upto_rec1)

lemma set_neighbours:
  "set (neighbours x y) = {(i, j). in_grid i j \<and> max \<bar>i - x\<bar> \<bar>j - y\<bar> = 1}"
  unfolding neighbours_def by (auto simp: max_def abs_if split: if_splits)

lemma distinct_neighbours: "distinct (neighbours x y)"
  unfolding neighbours_def by (simp add: distinct_product)

lemma length_neighbours_le: "length (neighbours x y) \<le> 8"
proof -
  have "(x, y) \<in> set (List.product [x - 1 .. x + 1] [y - 1 .. y + 1])" by simp
  then have "length (neighbours x y) < length (List.product [x - 1 .. x + 1] [y - 1 .. y + 1])"
    unfolding neighbours_def by (rule length_filter_less) simp
  also have "\<dots> = 9" by (simp add: upto_around)
  finally show ?thesis by simp
qed

lemma alive_neighbours_le: "alive_neighbours s x y \<le> int (length (neighbours x y))"
  by (simp add: alive_neighbours_def)

lemma length_neighbours_corner:
  assumes "x = 0 \<or> x = NUM_TILES_WIDE - 1" "y = 0 \<or> y = NUM_TILES_HIGH - 1"
  shows "length (neighbours x y) = 3"
  using assms
  by (auto simp: neighbours_def upto_around in_grid_def NUM_TILES_WIDE_def NUM_TILES_HIGH_def)

lemma length_neighbours_edge_x:
  assumes "x = 0 \<or> x = NUM_TILES_WIDE - 1" "0 < y" "y < NUM_TILES_HIGH - 1"
  shows "length (neighbours x y) = 5"
  using assms
  by (auto simp: neighbours_def upto_around in_grid_def NUM_TILES_WIDE_def NUM_TILES_HIGH_def)

lemma length_neighbours_edge_y:
  assumes "0 < x" "x < NUM_TILES_WIDE - 1" "y = 0 \<or> y = NUM_TILES_HIGH - 1"
  shows "length (neighbours x y) = 5"
  using assms
  by (auto simp: neighbours_def upto_around in_grid_def NUM_TILES_WIDE_def NUM_TILES_HIGH_def)

lemma length_neighbours_interior:
  assumes "0 < x" "x < NUM_TILES_WIDE - 1" "0 < y" "y < NUM_TILES_HIGH - 1"
  shows "length (neighbours x y) = 8"
  using assms
  by (auto simp: neighbours_def upto_around in_grid_def NUM_TILES_WIDE_def NUM_TILES_HIGH_def)

section \<open>Row-major passes over the grid\<close>

lemma swept_next_row:
  "swept f s i NUM_TILES_HIGH t \<Longrightarrow> swept f s (i + 1) 0 t"
  unfolding swept_def in_grid_def by (auto split: if_splits)

lemma sweep_rule:
  assumes start: "swept f s 0 0 s0" "Q s0"
    and body: "\<And>i j t. in_grid i j \<Longrightarrow> swept f s i j t \<Longrightarrow> Q t \<Longrightarrow>
                 \<exists>t'. body i j t = Inr t' \<and> swept f s i (j + 1) t' \<and> Q t'"
  shows "\<exists>t'. for_lt 0 NUM_TILES_WIDE (\<lambda>i. for_lt 0 NUM_TILES_HIGH (body i)) s0 = Inr t' \<and>
           (\<forall>a b. in_grid a b \<longrightarrow> cell t' a b = f a b) \<and> Q t'"
proof -
  have row: "\<exists>t'. for_lt 0 NUM_TILES_HIGH (body i) t = Inr t' \<and>
               (swept f s (i + 1) 0 t' \<and> Q t')"
    if i: "0 \<le> i" "i < NUM_TILES_WIDE" and t: "swept f s i 0 t \<and> Q t" for i t
  proof -
    have "\<exists>t'. for_lt 0 NUM_TILES_HIGH (body i) t = Inr t' \<and>
            (swept f s i NUM_TILES_HIGH t' \<and> Q t')"
    proof (rule for_lt_rule [where I = "\<lambda>j t. swept f s i j t \<and> Q t"])
      show "0 \<le> NUM_TILES_HIGH" by (simp add: NUM_TILES_HIGH_def)
      show "swept f s i 0 t \<and> Q t" by (rule t)
    next
      fix j u assume "0 \<le> j" "j < NUM_TILES_HIGH" "swept f s i j u \<and> Q u"
      then show "\<exists>t'. body i j u = Inr t' \<and> swept f s i (j + 1) t' \<and> Q t'"
        using body [of i j u] i by (simp add: in_grid_def)
    qed
    then show ?thesis using swept_next_row by blast
  qed
  have "\<exists>t'. for_lt 0 NUM_TILES_WIDE (\<lambda>i. for_lt 0 NUM_TILES_HIGH (body i)) s0 = Inr t' \<and>
          (swept f s NUM_TILES_WIDE 0 t' \<and> Q t')"
  proof (rule for_lt_rule [where I = "\<lambda>i t. swept f s i 0 t \<and> Q t"])
    show "0 \<le> NUM_TILES_WIDE" by (simp add: NUM_TILES_WIDE_def)
    show "swept f s 0 0 s0 \<and> Q s0" using start by simp
  next
    fix i t assume "0 \<le> i" "i < NUM_TILES_WIDE" "swept f s i 0 t \<and> Q t"
    then show "\<exists>t'. for_lt 0 NUM_TILES_HIGH (body i) t = Inr t' \<and>
                 swept f s (i + 1) 0 t' \<and> Q t'"
      by (rule row)
  qed
  then obtain t' where t': "for_lt 0 NUM_TILES_WIDE (\<lambda>i. for_lt 0 NUM_TILES_HIGH (body i)) s0 = Inr t'"
    "swept f s NUM_TILES_WIDE 0 t'" "Q t'" by blast
  from t'(2) have "\<forall>a b. in_grid a b \<longrightarrow> cell t' a b = f a b"
    unfolding swept_def in_grid_def by auto
  with t'(1,3) show ?thesis by blast
qed

lemma swept_step:
  assumes "swept f s i j t" "in_grid i j"
    and "\<forall>a b. cell t' a b = (if a = i \<and> b = j then f i j else cell t a b)"
  shows "swept f s i (j + 1) t'"
  using assms unfolding swept_def by (auto split: if_splits)

lemma swept_skip:
  assumes "swept f s i j t" "in_grid i j" "cell t i j = f i j"
  shows "swept f s i (j + 1) t"
  using assms unfolding swept_def by (auto split: if_splits)

lemma swept_start: "(\<forall>a b. cell s0 a b = cell s a b) \<Longrightarrow> swept f s 0 0 s0"
  unfolding swept_def in_grid_def by auto

section \<open>The two phases of a tick\<close>

lemma counts_alive_mark:
  assumes "c = Some DEAD \<or> c = Some ALIVE"
  shows "counts_alive (mark c n) = counts_alive c"
  using assms
  by (auto simp: counts_alive_def mark_def DEAD_def ALIVE_def PENDING_DEAD_def PENDING_ALIVE_def)

lemma phase1_alive:
  assumes "no_pending s"
    and "swept (\<lambda>a b. mark (cell s a b) (alive_neighbours s a b)) s i j t"
  shows "\<forall>a b. in_grid a b \<longrightarrow> counts_alive (cell t a b) = counts_alive (cell s a b)"
proof (intro allI impI)
  fix a b assume g: "in_grid a b"
  with assms(1) have c: "cell s a b = Some DEAD \<or> cell s a b = Some ALIVE"
    by (simp add: no_pending_iff)
  from assms(2) g have
    "cell t a b = mark (cell s a b) (alive_neighbours s a b) \<or> cell t a b = cell s a b"
    unfolding swept_def by (auto split: if_splits)
  then show "counts_alive (cell t a b) = counts_alive (cell s a b)"
    using counts_alive_mark [OF c] by auto
qed

lemma phase1_body:
  assumes np: "no_pending s" and g: "in_grid i j"
    and sw: "swept (\<lambda>a b. mark (cell s a b) (alive_neighbours s a b)) s i j t"
  shows "\<exists>t'. bind_err (getNumAliveNeighbors t i j) (\<lambda>numAliveNeighbors.
               bind_err (board_get t (JInt i) (JInt j)) (\<lambda>c.
                 if c = Some ALIVE \<and> (numAliveNeighbors < 2 \<or> numAliveNeighbors > 3)
                 then setTile (JInt i) (JInt j) PENDING_DEAD t
                 else if c = Some DEAD \<and> numAliveNeighbors = 3
                 then setTile (JInt i) (JInt j) PENDING_ALIVE t
                 else Inr t)) = Inr t' \<and>
           swept (\<lambda>a b. mark (cell s a b) (alive_neighbours s a b)) s i (j + 1) t'"
proof -
  let ?f = "\<lambda>a b. mark (cell s a b) (alive_neighbours s a b)"
  let ?n = "alive_neighbours s i j"
  have i: "0 \<le> i" "i < NUM_TILES_WIDE" using g by (simp_all add: in_grid_def)
  have n: "getNumAliveNeighbors t i j = Inr ?n"
    using alive_neighbours_cong [OF phase1_alive [OF np sw]]
    by (simp add: getNumAliveNeighbors_eq)
  have c: "cell t i j = cell s i j"
    using sw g unfolding swept_def by auto
  have get: "board_get t (JInt i) (JInt j) = Inr (cell s i j)"
    using i c by (simp add: board_get_JInt)
  consider (die) "cell s i j = Some ALIVE \<and> (?n < 2 \<or> ?n > 3)"
    | (born) "\<not> (cell s i j = Some ALIVE \<and> (?n < 2 \<or> ?n > 3))" "cell s i j = Some DEAD \<and> ?n = 3"
    | (keep) "\<not> (cell s i j = Some ALIVE \<and> (?n < 2 \<or> ?n > 3))" "\<not> (cell s i j = Some DEAD \<and> ?n = 3)"
    by blast
  then show ?thesis
  proof cases
    case die
    from setTile_cell [OF i, of j PENDING_DEAD t] obtain t' where
      t': "setTile (JInt i) (JInt j) PENDING_DEAD t = Inr t'"
        "\<forall>a b. cell t' a b = (if a = i \<and> b = j then Some PENDING_DEAD else cell t a b)"
      by blast
    have "?f i j = Some PENDING_DEAD" using die by (simp add: mark_def)
    with t'(2) have "swept ?f s i (j + 1) t'"
      by (intro swept_step [OF sw g]) simp
    then show ?thesis using die t'(1) by (simp add: n get bind_err_def)
  next
    case born
    from setTile_cell [OF i, of j PENDING_ALIVE t] obtain t' where
      t': "setTile (JInt i) (JInt j) PENDING_ALIVE t = Inr t'"
        "\<forall>a b. cell t' a b = (if a = i \<and> b = j then Some PENDING_ALIVE else cell t a b)"
      by blast
    have "?f i j = Some PENDING_ALIVE" using born by (simp add: mark_def)
    with t'(2) have "swept ?f s i (j + 1) t'"
      by (intro swept_step [OF sw g]) simp
    then show ?thesis using born t'(1) by (simp add: n get bind_err_def)
  next
    case keep
    have "?f i j = cell s i j" using keep by (auto simp: mark_def)
    with c have "swept ?f s i (j + 1) t"
      by (intro swept_skip [OF sw g]) simp
    then show ?thesis using keep by (auto simp: n get bind_err_def)
  qed
qed

lemma phase2_body:
  assumes g: "in_grid i j" and sw: "swept (\<lambda>a b. settle (cell s a b)) s i j t"
  shows "\<exists>t'. bind_err (board_get t (JInt i) (JInt j)) (\<lambda>c.
           if c = Some PENDING_DEAD then setTile (JInt i) (JInt j) DEAD t
           else if c = Some PENDING_ALIVE then setTile (JInt i) (JInt j) ALIVE t
           else Inr t) = Inr t' \<and>
           swept (\<lambda>a b. settle (cell s a b)) s i (j + 1) t'"
proof -
  let ?f = "\<lambda>a b. settle (cell s a b)"
  have i: "0 \<le> i" "i < NUM_TILES_WIDE" using g by (simp_all add: in_grid_def)
  have c: "cell t i j = cell s i j"
    using sw g unfolding swept_def by auto
  have get: "board_get t (JInt i) (JInt j) = Inr (cell s i j)"
    using i c by (simp add: board_get_JInt)
  consider (pd) "cell s i j = Some PENDING_DEAD"
    | (pa) "cell s i j \<noteq> Some PENDING_DEAD" "cell s i j = Some PENDING_ALIVE"
    | (keep) "cell s i j \<noteq> Some PENDING_DEAD" "cell s i j \<noteq> Some PENDING_ALIVE"
    by blast
  then show ?thesis
  proof cases
    case pd
    from setTile_cell [OF i, of j DEAD t] obtain t' where
      t': "setTile (JInt i) (JInt j) DEAD t = Inr t'"
        "\<forall>a b. cell t' a b = (if a = i \<and> b = j then Some DEAD else cell t a b)"
      by blast
    have "?f i j = Some DEAD" using pd by (simp add: settle_def)
    with t'(2) have "swept ?f s i (j + 1) t'"
      by (intro swept_step [OF sw g]) simp
    then show ?thesis using pd t'(1) by (simp add: get bind_err_def)
  next
    case pa
    from setTile_cell [OF i, of j ALIVE t] obtain t' where
      t': "setTile (JInt i) (JInt j) ALIVE t = Inr t'"
        "\<forall>a b. cell t' a b = (if a = i \<and> b = j then Some ALIVE else cell t a b)"
      by blast
    have "?f i j = Some ALIVE" using pa by (simp add: settle_def)
    with t'(2) have "swept ?f s i (j + 1) t'"
      by (intro swept_step [OF sw g]) simp
    then show ?thesis using pa t'(1) by (simp add: get bind_err_def)
  next
    case keep
    have "?f i j = cell s i j" using keep by (auto simp: settle_def)
    with c have "swept ?f s i (j + 1) t"
      by (intro swept_skip [OF sw g]) simp
    then show ?thesis using keep by (auto simp: get bind_err_def)
  qed
qed

lemma refreshBoard_cells:
  "\<exists>t'. refreshBoard s = Inr t' \<and> (\<forall>a b. in_grid a b \<longrightarrow> cell t' a b = settle (cell s a b))"
proof -
  have "\<exists>t'. refreshBoard s = Inr t' \<and>
          (\<forall>a b. in_grid a b \<longrightarrow> cell t' a b = settle (cell s a b)) \<and> True"
    unfolding refreshBoard_def
    by (rule sweep_rule [where s = s and Q = "\<lambda>_. True"])
       (use phase2_body in \<open>auto intro: swept_start\<close>)
  then show ?thesis by simp
qed

lemma settle_mark:
  assumes "c = Some DEAD \<or> c = Some ALIVE"
  shows "settle (mark c n) = conway c n"
  using assms
  by (auto simp: settle_def mark_def conway_def DEAD_def ALIVE_def PENDING_DEAD_def PENDING_ALIVE_def)

lemma playGame_cells:
  assumes "no_pending s" "isPlaying s"
  shows "\<exists>s'. playGame s = Inr s' \<and>
           (\<forall>a b. in_grid a b \<longrightarrow> cell s' a b = conway (cell s a b) (alive_neighbours s a b))"
proof -
  let ?f = "\<lambda>a b. mark (cell s a b) (alive_neighbours s a b)"
  let ?body = "\<lambda>i j t. bind_err (getNumAliveNeighbors t i j) (\<lambda>numAliveNeighbors.
               bind_err (board_get t (JInt i) (JInt j)) (\<lambda>c.
                 if c = Some ALIVE \<and> (numAliveNeighbors < 2 \<or> numAliveNeighbors > 3)
                 then setTile (JInt i) (JInt j) PENDING_DEAD t
                 else if c = Some DEAD \<and> numAliveNeighbors = 3
                 then setTile (JInt i) (JInt j) PENDING_ALIVE t
                 else Inr t))"
  have "\<exists>t'. for_lt 0 NUM_TILES_WIDE (\<lambda>i. for_lt 0 NUM_TILES_HIGH (?body i)) s = Inr t' \<and>
          (\<forall>a b. in_grid a b \<longrightarrow> cell t' a b = ?f a b) \<and> True"
    by (rule sweep_rule [where s = s and Q = "\<lambda>_. True"])
       (use phase1_body [OF assms(1)] in \<open>auto intro: swept_start\<close>)
  then obtain t where t: "for_lt 0 NUM_TILES_WIDE (\<lambda>i. for_lt 0 NUM_TILES_HIGH (?body i)) s = Inr t"
    "\<forall>a b. in_grid a b \<longrightarrow> cell t a b = ?f a b" by blast
  from refreshBoard_cells [of t] obtain s' where
    s': "refreshBoard t = Inr s'" "\<forall>a b. in_grid a b \<longrightarrow> cell s' a b = settle (cell t a b)"
    by blast
  have "playGame s = Inr s'"
    using assms(2) t(1) s'(1) by (simp add: playGame_def bind_err_def)
  moreover have "cell s' a b = conway (cell s a b) (alive_neighbours s a b)" if "in_grid a b" for a b
    using that s'(2) t(2) assms(1) settle_mark by (simp add: no_pending_iff)
  ultimately show ?thesis by blast
qed

section \<open>Reset and edits\<close>

lemma clearBoard_cells:
  "\<exists>s'. clearBoard s = Inr s' \<and> (\<forall>a b. in_grid a b \<longrightarrow> cell s' a b = Some DEAD) \<and>
        (\<not> isPlaying s' \<and> playButton_value s' = ''Play'')"
  unfolding clearBoard_def
proof (rule sweep_rule [where s = s and f = "\<lambda>_ _. Some DEAD"
        and Q = "\<lambda>t. \<not> isPlaying t \<and> playButton_value t = ''Play''"])
  show "swept (\<lambda>_ _. Some DEAD) s 0 0 (s\<lparr>playButton_value := ''Play'', isPlaying := False\<rparr>)"
    by (rule swept_start) (simp add: cell_def)
  show "\<not> isPlaying (s\<lparr>playButton_value := ''Play'', isPlaying := False\<rparr>) \<and>
        playButton_value (s\<lparr>playButton_value := ''Play'', isPlaying := False\<rparr>) = ''Play''"
    by simp
next
  fix i j t
  assume g: "in_grid i j" and sw: "swept (\<lambda>_ _. Some DEAD) s i j t"
    and q: "\<not> isPlaying t \<and> playButton_value t = ''Play''"
  have i: "0 \<le> i" "i < NUM_TILES_WIDE" using g by (simp_all add: in_grid_def)
  from setTile_cell [OF i, of j DEAD t] obtain t' where
    t': "setTile (JInt i) (JInt j) DEAD t = Inr t'"
      "\<forall>a b. cell t' a b = (if a = i \<and> b = j then Some DEAD else cell t a b)"
      "isPlaying t' = isPlaying t" "playButton_value t' = playButton_value t"
    by blast
  from t'(2) have "swept (\<lambda>_ _. Some DEAD) s i (j + 1) t'"
    by (intro swept_step [OF sw g]) simp
  with t' q show "\<exists>t'. setTile (JInt i) (JInt j) DEAD t = Inr t' \<and>
      swept (\<lambda>_ _. Some DEAD) s i (j + 1) t' \<and> \<not> isPlaying t' \<and> playButton_value t' = ''Play''"
    by simp
qed




lemma changeTile_paused:
  assumes "\<not> isPlaying s"
    and "mousePositionToTile s (offsetX ev) (offsetY ev) = (x, y)"
    and "board_row x = Some i"
  shows "\<exists>s'. changeTile ev s = Inr s' \<and>
           board s' = (board s)(i := (board s i)(y := Some (if board s i y = Some DEAD then ALIVE else DEAD))) \<and>
           isPlaying s' = isPlaying s \<and>
           writes s' = writes s @ [(x, y, if board s i y = Some DEAD then ALIVE else DEAD)]"
proof (cases "board s i y = Some DEAD")
  case True
  from setTile_row [OF assms(3), of y ALIVE s] show ?thesis
    using assms True by (auto simp: changeTile_def board_get_def bind_err_def)
next
  case False
  from setTile_row [OF assms(3), of y DEAD s] show ?thesis
    using assms False by (auto simp: changeTile_def board_get_def bind_err_def)
qed

lemma changeTile_raises:
  assumes "\<not> isPlaying s"
    and "mousePositionToTile s (offsetX ev) (offsetY ev) = (x, y)"
    and "board_row x = None"
  shows "changeTile ev s = Inl TypeError"
  using assms by (simp add: changeTile_def board_get_def bind_err_def)


lemma board_row_None_iff:
  "board_row x = None \<longleftrightarrow> \<not> (\<exists>i. x = JInt i \<and> 0 \<le> i \<and> i < NUM_TILES_WIDE)"
  by (cases x) (simp_all add: board_row_def)

section \<open>Two runs of a tick\<close>

lemma same_run_setTile:
  assumes "same_run s1 s2 t1 t2" "0 \<le> i" "i < NUM_TILES_WIDE"
  shows "\<exists>u1 u2. setTile (JInt i) y v t1 = Inr u1 \<and> setTile (JInt i) y v t2 = Inr u2 \<and>
           same_run s1 s2 u1 u2"
proof -
  have r: "board_row (JInt i) = Some i" using assms(2,3) by (simp add: board_row_JInt)
  from setTile_row [OF r, of y v t1] setTile_row [OF r, of y v t2] assms(1)
  show ?thesis unfolding same_run_def by auto
qed

lemma same_run_cells: "same_run s1 s2 t1 t2 \<Longrightarrow> cell t1 = cell t2"
  by (intro ext) (simp add: same_run_def cell_def)

lemma same_run_neighbours:
  "same_run s1 s2 t1 t2 \<Longrightarrow> alive_neighbours t1 x y = alive_neighbours t2 x y"
  by (simp add: alive_neighbours_def same_run_cells)

lemma same_run_phase1:
  assumes r: "same_run s1 s2 t1 t2" and g: "in_grid i j"
  shows "\<exists>u1 u2.
      bind_err (getNumAliveNeighbors t1 i j) (\<lambda>numAliveNeighbors.
        bind_err (board_get t1 (JInt i) (JInt j)) (\<lambda>c.
          if c = Some ALIVE \<and> (numAliveNeighbors < 2 \<or> numAliveNeighbors > 3)
          then setTile (JInt i) (JInt j) PENDING_DEAD t1
          else if c = Some DEAD \<and> numAliveNeighbors = 3
          then setTile (JInt i) (JInt j) PENDING_ALIVE t1
          else Inr t1)) = Inr u1 \<and>
      bind_err (getNumAliveNeighbors t2 i j) (\<lambda>numAliveNeighbors.
        bind_err (board_get t2 (JInt i) (JInt j)) (\<lambda>c.
          if c = Some ALIVE \<and> (numAliveNeighbors < 2 \<or> numAliveNeighbors > 3)
          then setTile (JInt i) (JInt j) PENDING_DEAD t2
          else if c = Some DEAD \<and> numAliveNeighbors = 3
          then setTile (JInt i) (JInt j) PENDING_ALIVE t2
          else Inr t2)) = Inr u2 \<and>
      same_run s1 s2 u1 u2"
proof -
  let ?n = "alive_neighbours t2 i j" and ?c = "cell t2 i j"
  have i: "0 \<le> i" "i < NUM_TILES_WIDE" using g by (simp_all add: in_grid_def)
  have n: "alive_neighbours t1 i j = ?n"
    by (rule same_run_neighbours [OF r])
  have c: "cell t1 i j = ?c" using same_run_cells [OF r] by simp
  note unf = getNumAliveNeighbors_eq board_get_JInt [OF i] bind_err_def n c
  consider (die) "?c = Some ALIVE \<and> (?n < 2 \<or> ?n > 3)"
    | (born) "\<not> (?c = Some ALIVE \<and> (?n < 2 \<or> ?n > 3))" "?c = Some DEAD \<and> ?n = 3"
    | (keep) "\<not> (?c = Some ALIVE \<and> (?n < 2 \<or> ?n > 3))" "\<not> (?c = Some DEAD \<and> ?n = 3)"
    by blast
  then show ?thesis
  proof cases
    case die
    with same_run_setTile [OF r i, of "JInt j" PENDING_DEAD] show ?thesis
      by (simp add: unf)
  next
    case born
    with same_run_setTile [OF r i, of "JInt j" PENDING_ALIVE] show ?thesis
      by (simp add: unf)
  next
    case keep
    with r show ?thesis by (auto simp: unf)
  qed
qed

lemma same_run_phase2:
  assumes r: "same_run s1 s2 t1 t2" and g: "in_grid i j"
  shows "\<exists>u1 u2.
      bind_err (board_get t1 (JInt i) (JInt j)) (\<lambda>c.
        if c = Some PENDING_DEAD then setTile (JInt i) (JInt j) DEAD t1
        else if c = Some PENDING_ALIVE then setTile (JInt i) (JInt j) ALIVE t1
        else Inr t1) = Inr u1 \<and>
      bind_err (board_get t2 (JInt i) (JInt j)) (\<lambda>c.
        if c = Some PENDING_DEAD then setTile (JInt i) (JInt j) DEAD t2
        else if c = Some PENDING_ALIVE then setTile (JInt i) (JInt j) ALIVE t2
        else Inr t2) = Inr u2 \<and>
      same_run s1 s2 u1 u2"
proof -
  let ?c = "cell t2 i j"
  have i: "0 \<le> i" "i < NUM_TILES_WIDE" using g by (simp_all add: in_grid_def)
  have c: "cell t1 i j = ?c" using same_run_cells [OF r] by simp
  note unf = board_get_JInt [OF i] bind_err_def c
  consider (pd) "?c = Some PENDING_DEAD"
    | (pa) "?c \<noteq> Some PENDING_DEAD" "?c = Some PENDING_ALIVE"
    | (keep) "?c \<noteq> Some PENDING_DEAD" "?c \<noteq> Some PENDING_ALIVE"
    by blast
  then show ?thesis
  proof cases
    case pd
    with same_run_setTile [OF r i, of "JInt j" DEAD] show ?thesis
      by (simp add: unf)
  next
    case pa
    with same_run_setTile [OF r i, of "JInt j" ALIVE] show ?thesis
      by (simp add: unf)
  next
    case keep
    with r show ?thesis by (simp add: unf)
  qed
qed

lemma sweep_rule2:
  assumes start: "same_run s1 s2 t1 t2"
    and body: "\<And>i j u1 u2. in_grid i j \<Longrightarrow> same_run s1 s2 u1 u2 \<Longrightarrow>
                 \<exists>v1 v2. body i j u1 = Inr v1 \<and> body i j u2 = Inr v2 \<and> same_run s1 s2 v1 v2"
  shows "\<exists>v1 v2. for_lt 0 NUM_TILES_WIDE (\<lambda>i. for_lt 0 NUM_TILES_HIGH (body i)) t1 = Inr v1 \<and>
           for_lt 0 NUM_TILES_WIDE (\<lambda>i. for_lt 0 NUM_TILES_HIGH (body i)) t2 = Inr v2 \<and>
           same_run s1 s2 v1 v2"
proof (rule for_lt_rule2 [where R = "\<lambda>_. same_run s1 s2"])
  show "0 \<le> NUM_TILES_WIDE" by (simp add: NUM_TILES_WIDE_def)
  show "same_run s1 s2 t1 t2" by (rule start)
next
  fix i u1 u2 assume i: "0 \<le> i" "i < NUM_TILES_WIDE" and r: "same_run s1 s2 u1 u2"
  show "\<exists>v1 v2. for_lt 0 NUM_TILES_HIGH (body i) u1 = Inr v1 \<and>
          for_lt 0 NUM_TILES_HIGH (body i) u2 = Inr v2 \<and> same_run s1 s2 v1 v2"
  proof (rule for_lt_rule2 [where R = "\<lambda>_. same_run s1 s2"])
    show "0 \<le> NUM_TILES_HIGH" by (simp add: NUM_TILES_HIGH_def)
    show "same_run s1 s2 u1 u2" by (rule r)
  next
    fix j w1 w2 assume "0 \<le> j" "j < NUM_TILES_HIGH" "same_run s1 s2 w1 w2"
    then show "\<exists>v1 v2. body i j w1 = Inr v1 \<and> body i j w2 = Inr v2 \<and> same_run s1 s2 v1 v2"
      using body [of i j w1 w2] i by (simp add: in_grid_def)
  qed
qed

lemma playGame_same_run:
  assumes "board s1 = board s2" "isPlaying s1 = isPlaying s2"
  shows "\<exists>t1 t2. playGame s1 = Inr t1 \<and> playGame s2 = Inr t2 \<and> same_run s1 s2 t1 t2"
proof (cases "isPlaying s1")
  case False
  then show ?thesis using assms by (simp add: playGame_def same_run_def)
next
  case True
  let ?body = "\<lambda>i j t. bind_err (getNumAliveNeighbors t i j) (\<lambda>numAliveNeighbors.
               bind_err (board_get t (JInt i) (JInt j)) (\<lambda>c.
                 if c = Some ALIVE \<and> (numAliveNeighbors < 2 \<or> numAliveNeighbors > 3)
                 then setTile (JInt i) (JInt j) PENDING_DEAD t
                 else if c = Some DEAD \<and> numAliveNeighbors = 3
                 then setTile (JInt i) (JInt j) PENDING_ALIVE t
                 else Inr t))"
  have start: "same_run s1 s2 s1 s2" using assms by (simp add: same_run_def)
  have "\<exists>u1 u2.
      for_lt 0 NUM_TILES_WIDE (\<lambda>i. for_lt 0 NUM_TILES_HIGH (?body i)) s1 = Inr u1 \<and>
      for_lt 0 NUM_TILES_WIDE (\<lambda>i. for_lt 0 NUM_TILES_HIGH (?body i)) s2 = Inr u2 \<and>
      same_run s1 s2 u1 u2"
    by (rule sweep_rule2 [OF start]) (rule same_run_phase1)
  then obtain u1 u2 where u:
    "for_lt 0 NUM_TILES_WIDE (\<lambda>i. for_lt 0 NUM_TILES_HIGH (?body i)) s1 = Inr u1"
    "for_lt 0 NUM_TILES_WIDE (\<lambda>i. for_lt 0 NUM_TILES_HIGH (?body i)) s2 = Inr u2"
    "same_run s1 s2 u1 u2" by blast
  have "\<exists>v1 v2. refreshBoard u1 = Inr v1 \<and> refreshBoard u2 = Inr v2 \<and> same_run s1 s2 v1 v2"
    unfolding refreshBoard_def
    by (rule sweep_rule2 [OF u(3)]) (rule same_run_phase2)
  then obtain v1 v2 where
    v: "refreshBoard u1 = Inr v1" "refreshBoard u2 = Inr v2" "same_run s1 s2 v1 v2"
    by blast
  show ?thesis using True assms(2) u(1,2) v by (simp add: playGame_def bind_err_def)
qed

text \<open>No tick and no reset raises: only \<open>changeTile\<close> can end in an exception.\<close>

lemma handlers_return:
  "(\<exists>s'. playGame s = Inr s') \<and> (\<exists>s'. clearBoard s = Inr s') \<and> (\<exists>s'. refreshBoard s = Inr s')"
  using playGame_same_run [of s s] clearBoard_cells [of s] refreshBoard_cells [of s] by blast

section \<open>The invariant\<close>

lemma no_pending_clearBoard: "no_pending (handle clearBoard s)"
  using clearBoard_cells [of s] by (auto simp: handle_def no_pending_iff)

lemma conway_settled:
  "c = Some DEAD \<or> c = Some ALIVE \<Longrightarrow> conway c n = Some DEAD \<or> conway c n = Some ALIVE"
  by (auto simp: conway_def)

lemma no_pending_playGame:
  assumes "no_pending s"
  shows "no_pending (handle playGame s)"
proof (cases "isPlaying s")
  case True
  from playGame_cells [OF assms True] obtain s' where
    s': "playGame s = Inr s'"
      "\<forall>a b. in_grid a b \<longrightarrow> cell s' a b = conway (cell s a b) (alive_neighbours s a b)"
    by blast
  have "cell s' a b = Some DEAD \<or> cell s' a b = Some ALIVE" if "in_grid a b" for a b
    using that s'(2) assms conway_settled by (simp add: no_pending_iff)
  then show ?thesis using s'(1) by (simp add: handle_def no_pending_iff)
next
  case False
  then show ?thesis using assms by (simp add: handle_def playGame_def)
qed

lemma no_pending_playOrPause: "no_pending s \<Longrightarrow> no_pending (playOrPause s)"
  by (simp add: no_pending_def playOrPause_def cell_def)

lemma no_pending_changeTile:
  assumes "no_pending s"
  shows "no_pending (handle (changeTile ev) s)"
proof (cases "isPlaying s")
  case True
  then show ?thesis using assms by (simp add: handle_def changeTile_def)
next
  case False
  obtain x y where xy: "mousePositionToTile s (offsetX ev) (offsetY ev) = (x, y)"
    by (cases "mousePositionToTile s (offsetX ev) (offsetY ev)")
  show ?thesis
  proof (cases "board_row x")
    case None
    from changeTile_raises [OF False xy None] show ?thesis
      using assms by (simp add: handle_def)
  next
    case (Some i)
    from changeTile_paused [OF False xy Some] obtain s' where
      s': "changeTile ev s = Inr s'"
        "board s' = (board s)(i := (board s i)(y := Some (if board s i y = Some DEAD then ALIVE else DEAD)))"
      by blast
    have "cell s' a b = Some DEAD \<or> cell s' a b = Some ALIVE" if "in_grid a b" for a b
      using that assms s'(2) by (auto simp: no_pending_iff cell_def)
    then show ?thesis using s'(1) by (simp add: handle_def no_pending_iff)
  qed
qed

lemma no_pending_step: "no_pending s \<Longrightarrow> no_pending (step a s)"
  by (cases a)
    (simp_all add: no_pending_changeTile no_pending_playOrPause no_pending_clearBoard
       no_pending_playGame)

lemma no_pending_run: "no_pending s \<Longrightarrow> no_pending (run acts s)"
  unfolding run_def by (induction acts arbitrary: s) (simp_all add: no_pending_step)

section \<open>Facts about the example states\<close>

lemma cell_blinker:
  "cell blinker x y =
     (if in_grid x y then Some (if x = 12 \<and> 11 \<le> y \<and> y \<le> 13 then ALIVE else DEAD) else None)"
  by (simp add: cell_def blinker_def)

lemma no_pending_blinker: "no_pending blinker"
  by (simp add: no_pending_iff cell_blinker)

lemma nb_blinker:
  "alive_neighbours blinker 11 12 = 3" "alive_neighbours blinker 12 11 = 1"
  "alive_neighbours blinker 12 12 = 2" "alive_neighbours blinker 0 0 = 0"
  by (simp_all add: alive_neighbours_def neighbours_def cell_blinker counts_alive_def in_grid_def
      NUM_TILES_WIDE_def NUM_TILES_HIGH_def DEAD_def ALIVE_def PENDING_DEAD_def)

lemma in_grid_simps:
  "in_grid 0 0" "in_grid 12 0" "in_grid 12 12" "in_grid 11 12" "in_grid 12 11" "\<not> in_grid 0 25"
  by (simp_all add: in_grid_def NUM_TILES_WIDE_def NUM_TILES_HIGH_def)

lemma handle_setup_page: "handle setup_page s = handle clearBoard s"
  by (simp add: handle_def setup_page_def)

lemma cell_paused_blinker: "cell paused_blinker = cell blinker"
  by (intro ext) (simp add: paused_blinker_def cell_def)


lemma cell_all_pending_alive: "cell all_pending_alive x y = Some PENDING_ALIVE"
  by (simp add: all_pending_alive_def cell_def)

section \<open>The claims\<close>

text \<open>
  C1. From a grid of Dead and Alive cells only, one tick while the game is
  running (\<open>playGame\<close>: the marking pass, then \<open>refreshBoard\<close>) returns
  normally and leaves in every grid cell what Conway's rule gives for the
  state before the tick: an Alive cell with fewer than 2 or more than 3 living
  neighbours is Dead, a Dead cell with exactly 3 is Alive, every other cell is
  as before. The neighbour count is the one \<open>getNumAliveNeighbors\<close> returns
  on the state before the tick, so the order of the pass does not matter.
\<close>

theorem playGame_conway:
  assumes "no_pending s" and "isPlaying s"
  shows "\<exists>s'. playGame s = Inr s' \<and>
    (\<forall>x y. in_grid x y \<longrightarrow>
       getNumAliveNeighbors s x y = Inr (alive_neighbours s x y) \<and>
       (cell s x y = Some ALIVE \<and> (alive_neighbours s x y < 2 \<or> alive_neighbours s x y > 3)
          \<longrightarrow> cell s' x y = Some DEAD) \<and>
       (cell s x y = Some DEAD \<and> alive_neighbours s x y = 3 \<longrightarrow> cell s' x y = Some ALIVE) \<and>
       (\<not> (cell s x y = Some ALIVE \<and> (alive_neighbours s x y < 2 \<or> alive_neighbours s x y > 3)) \<and>
        \<not> (cell s x y = Some DEAD \<and> alive_neighbours s x y = 3)
          \<longrightarrow> cell s' x y = cell s x y))"
proof -
  from playGame_cells [OF assms] obtain s' where
    s': "playGame s = Inr s'"
      "\<forall>a b. in_grid a b \<longrightarrow> cell s' a b = conway (cell s a b) (alive_neighbours s a b)"
    by blast
  have np: "ALIVE \<noteq> DEAD" by (simp add: ALIVE_def DEAD_def)
  show ?thesis
  proof (intro exI conjI allI impI)
    show "playGame s = Inr s'" by (rule s'(1))
  qed (use s'(2) np in \<open>auto simp: conway_def getNumAliveNeighbors_eq\<close>)
qed

theorem playGame_conway_witness:
  "no_pending blinker \<and> isPlaying blinker \<and>
   cell (handle playGame blinker) 11 12 = Some ALIVE \<and>
   cell (handle playGame blinker) 12 11 = Some DEAD \<and>
   cell (handle playGame blinker) 12 12 = Some ALIVE \<and>
   cell (handle playGame blinker) 0 0 = Some DEAD"
proof -
  have ip: "isPlaying blinker" by (simp add: blinker_def fresh_def)
  from playGame_conway [OF no_pending_blinker ip] obtain s' where
    s': "playGame blinker = Inr s'"
    and r: "\<And>x y. in_grid x y \<Longrightarrow>
       (cell blinker x y = Some ALIVE \<and> (alive_neighbours blinker x y < 2 \<or> alive_neighbours blinker x y > 3)
          \<longrightarrow> cell s' x y = Some DEAD) \<and>
       (cell blinker x y = Some DEAD \<and> alive_neighbours blinker x y = 3 \<longrightarrow> cell s' x y = Some ALIVE) \<and>
       (\<not> (cell blinker x y = Some ALIVE \<and> (alive_neighbours blinker x y < 2 \<or> alive_neighbours blinker x y > 3)) \<and>
        \<not> (cell blinker x y = Some DEAD \<and> alive_neighbours blinker x y = 3)
          \<longrightarrow> cell s' x y = cell blinker x y)"
    by blast
  have g: "in_grid 11 12" "in_grid 12 11" "in_grid 12 12" "in_grid 0 0"
    by (simp_all add: in_grid_def NUM_TILES_WIDE_def NUM_TILES_HIGH_def)
  have "cell s' 11 12 = Some ALIVE" "cell s' 12 11 = Some DEAD"
    "cell s' 12 12 = Some ALIVE" "cell s' 0 0 = Some DEAD"
    using r [OF g(1)] r [OF g(2)] r [OF g(3)] r [OF g(4)] g
    by (simp_all add: nb_blinker cell_blinker DEAD_def ALIVE_def)
  then show ?thesis using s' ip no_pending_blinker by (simp add: handle_def)
qed

text \<open>
  C2. After \<open>setup\<close> and any sequence of edits, play/pause toggles, resets
  and complete ticks, every cell of the grid is Dead or Alive; and each single
  operation keeps a grid of Dead and Alive cells that way.
\<close>

theorem no_pending_reachable:
  "no_pending (run acts (handle setup_page s0)) \<and> (no_pending s \<longrightarrow> no_pending (step a s))"
  by (simp add: handle_setup_page no_pending_run no_pending_clearBoard no_pending_step)

theorem no_pending_reachable_witness:
  "no_pending (run [Edit \<lparr>offsetX = 250, offsetY = 250\<rparr>, PlayPause, Tick,
       Edit \<lparr>offsetX = 0, offsetY = 0\<rparr>, PlayPause, Edit \<lparr>offsetX = 10, offsetY = 600\<rparr>, Reset]
     (handle setup_page fresh)) \<and>
   no_pending blinker \<and> no_pending (step Tick blinker)"
  using no_pending_reachable [of "[Edit \<lparr>offsetX = 250, offsetY = 250\<rparr>, PlayPause, Tick,
       Edit \<lparr>offsetX = 0, offsetY = 0\<rparr>, PlayPause, Edit \<lparr>offsetX = 10, offsetY = 600\<rparr>, Reset]"
      fresh blinker Tick] no_pending_blinker
  by simp

text \<open>
  C3. For a cell \<open>(x, y)\<close> of the grid, \<open>getNumAliveNeighbors\<close> returns the
  number of cells of \<open>neighbours x y\<close> that \<open>isTileAlive\<close> reports alive.
  These are exactly the grid cells at Chebyshev distance 1, each once, never
  \<open>(x, y)\<close> itself and with no wraparound; the result depends on no other
  cell and lies between 0 and 8. A corner has 3 neighbours, another edge cell
  5, an interior cell 8, and the count is at most the number of neighbours.
\<close>

theorem getNumAliveNeighbors_neighbourhood:
  assumes "in_grid x y"
  shows "getNumAliveNeighbors s x y =
           Inr (int (length (filter (\<lambda>(i, j). counts_alive (cell s i j)) (neighbours x y)))) \<and>
         set (neighbours x y) = {(i, j). in_grid i j \<and> max \<bar>i - x\<bar> \<bar>j - y\<bar> = 1} \<and>
         distinct (neighbours x y) \<and>
         ((\<forall>(i, j) \<in> set (neighbours x y). cell t i j = cell s i j) \<longrightarrow>
            getNumAliveNeighbors t x y = getNumAliveNeighbors s x y) \<and>
         (\<exists>n. getNumAliveNeighbors s x y = Inr n \<and> 0 \<le> n \<and> n \<le> 8 \<and>
              n \<le> int (length (neighbours x y))) \<and>
         ((x = 0 \<or> x = NUM_TILES_WIDE - 1) \<and> (y = 0 \<or> y = NUM_TILES_HIGH - 1) \<longrightarrow>
            length (neighbours x y) = 3) \<and>
         (((x = 0 \<or> x = NUM_TILES_WIDE - 1) \<and> 0 < y \<and> y < NUM_TILES_HIGH - 1) \<or>
          (0 < x \<and> x < NUM_TILES_WIDE - 1 \<and> (y = 0 \<or> y = NUM_TILES_HIGH - 1)) \<longrightarrow>
            length (neighbours x y) = 5) \<and>
         (0 < x \<and> x < NUM_TILES_WIDE - 1 \<and> 0 < y \<and> y < NUM_TILES_HIGH - 1 \<longrightarrow>
            length (neighbours x y) = 8)"
proof -
  have count: "getNumAliveNeighbors s x y =
      Inr (int (length (filter (\<lambda>(i, j). counts_alive (cell s i j)) (neighbours x y))))"
    by (simp add: getNumAliveNeighbors_eq alive_neighbours_def)
  have frame: "getNumAliveNeighbors t x y = getNumAliveNeighbors s x y"
    if "\<forall>(i, j) \<in> set (neighbours x y). cell t i j = cell s i j"
  proof -
    have "filter (\<lambda>(i, j). counts_alive (cell t i j)) (neighbours x y) =
          filter (\<lambda>(i, j). counts_alive (cell s i j)) (neighbours x y)"
      by (rule filter_cong) (use that in auto)
    then show ?thesis by (simp add: getNumAliveNeighbors_eq alive_neighbours_def)
  qed
  have bound: "\<exists>n. getNumAliveNeighbors s x y = Inr n \<and> 0 \<le> n \<and> n \<le> 8 \<and>
      n \<le> int (length (neighbours x y))"
  proof -
    have "length (filter (\<lambda>(i, j). counts_alive (cell s i j)) (neighbours x y))
        \<le> length (neighbours x y)"
      by (rule length_filter_le)
    with length_neighbours_le [of x y]
    have "0 \<le> alive_neighbours s x y \<and> alive_neighbours s x y \<le> 8 \<and>
        alive_neighbours s x y \<le> int (length (neighbours x y))"
      unfolding alive_neighbours_def by linarith
    then show ?thesis by (simp add: getNumAliveNeighbors_eq)
  qed
  show ?thesis
  proof (intro conjI impI)
    show "getNumAliveNeighbors s x y =
      Inr (int (length (filter (\<lambda>(i, j). counts_alive (cell s i j)) (neighbours x y))))"
      by (rule count)
    show "set (neighbours x y) = {(i, j). in_grid i j \<and> max \<bar>i - x\<bar> \<bar>j - y\<bar> = 1}"
      by (rule set_neighbours)
    show "distinct (neighbours x y)" by (rule distinct_neighbours)
    show "getNumAliveNeighbors t x y = getNumAliveNeighbors s x y"
      if "\<forall>(i, j) \<in> set (neighbours x y). cell t i j = cell s i j"
      using that by (rule frame)
    show "\<exists>n. getNumAliveNeighbors s x y = Inr n \<and> 0 \<le> n \<and> n \<le> 8 \<and>
      n \<le> int (length (neighbours x y))" by (rule bound)
    show "length (neighbours x y) = 3"
      if "(x = 0 \<or> x = NUM_TILES_WIDE - 1) \<and> (y = 0 \<or> y = NUM_TILES_HIGH - 1)"
      using that by (intro length_neighbours_corner) simp_all
    show "length (neighbours x y) = 5"
      if "((x = 0 \<or> x = NUM_TILES_WIDE - 1) \<and> 0 < y \<and> y < NUM_TILES_HIGH - 1) \<or>
          (0 < x \<and> x < NUM_TILES_WIDE - 1 \<and> (y = 0 \<or> y = NUM_TILES_HIGH - 1))"
      using that length_neighbours_edge_x [of x y] length_neighbours_edge_y [of x y] by blast
    show "length (neighbours x y) = 8"
      if "0 < x \<and> x < NUM_TILES_WIDE - 1 \<and> 0 < y \<and> y < NUM_TILES_HIGH - 1"
      using that by (intro length_neighbours_interior) simp_all
  qed
qed

theorem getNumAliveNeighbors_neighbourhood_witness:
  "in_grid 0 0 \<and> getNumAliveNeighbors blinker 0 0 = Inr 0 \<and> length (neighbours 0 0) = 3 \<and>
   in_grid 12 0 \<and> length (neighbours 12 0) = 5 \<and>
   in_grid 12 12 \<and> getNumAliveNeighbors blinker 12 12 = Inr 2 \<and> length (neighbours 12 12) = 8"
proof -
  note corner = getNumAliveNeighbors_neighbourhood [OF in_grid_simps(1), of blinker blinker]
  note edge = getNumAliveNeighbors_neighbourhood [OF in_grid_simps(2), of blinker blinker]
  note inner = getNumAliveNeighbors_neighbourhood [OF in_grid_simps(3), of blinker blinker]
  have "getNumAliveNeighbors blinker 0 0 = Inr 0"
    using corner [THEN conjunct1] nb_blinker(4) by (simp add: alive_neighbours_def)
  moreover have "getNumAliveNeighbors blinker 12 12 = Inr 2"
    using inner [THEN conjunct1] nb_blinker(3) by (simp add: alive_neighbours_def)
  moreover have "length (neighbours 0 0) = 3"
    using corner by (simp add: NUM_TILES_WIDE_def NUM_TILES_HIGH_def)
  moreover have "length (neighbours 12 0) = 5"
    using edge by (simp add: NUM_TILES_WIDE_def NUM_TILES_HIGH_def)
  moreover have "length (neighbours 12 12) = 8"
    using inner by (simp add: NUM_TILES_WIDE_def NUM_TILES_HIGH_def)
  ultimately show ?thesis by (simp add: in_grid_simps)
qed




text \<open>
  C5. From any state, \<open>clearBoard\<close> returns normally, every cell of the grid
  is Dead afterwards, the game is paused and the button reads Play.
\<close>

theorem clearBoard_all_dead:
  "\<exists>s'. clearBoard s = Inr s' \<and> (\<forall>x y. in_grid x y \<longrightarrow> cell s' x y = Some DEAD) \<and>
        \<not> isPlaying s' \<and> playButton_value s' = ''Play''"
  using clearBoard_cells [of s] by blast

theorem clearBoard_all_dead_witness:
  "isPlaying blinker \<and> cell blinker 12 12 = Some ALIVE \<and> in_grid 12 12 \<and>
   cell (handle clearBoard blinker) 12 12 = Some DEAD \<and> \<not> isPlaying (handle clearBoard blinker)"
proof -
  from clearBoard_all_dead [of blinker] obtain s' where
    "clearBoard blinker = Inr s'" "\<forall>x y. in_grid x y \<longrightarrow> cell s' x y = Some DEAD"
    "\<not> isPlaying s'" by blast
  moreover have "isPlaying blinker" by (simp add: blinker_def)
  ultimately show ?thesis
    by (simp add: handle_def in_grid_simps cell_blinker)
qed

text \<open>
  C6. A tick that arrives while the game is paused changes nothing: \<open>playGame\<close>
  returns the state it was given.
\<close>

theorem playGame_paused:
  "\<not> isPlaying s \<Longrightarrow> playGame s = Inr s"
  by (simp add: playGame_def)

theorem playGame_paused_witness:
  "\<not> isPlaying paused_blinker \<and> playGame paused_blinker = Inr paused_blinker \<and>
   cell (handle playGame paused_blinker) 12 11 = Some ALIVE"
proof -
  have p: "\<not> isPlaying paused_blinker" by (simp add: paused_blinker_def)
  from playGame_paused [OF p] show ?thesis
    using p by (simp add: handle_def cell_paused_blinker cell_blinker in_grid_simps)
qed

text \<open>
  C7. For a cell of the grid, \<open>isTileAlive\<close> returns true exactly when the
  cell is Alive or PendingDead; a PendingAlive cell and a Dead cell are
  reported not alive.
\<close>

theorem isTileAlive_iff:
  assumes "in_grid x y"
  shows "isTileAlive s (JInt x) (JInt y) =
           Inr (cell s x y = Some ALIVE \<or> cell s x y = Some PENDING_DEAD) \<and>
         (cell s x y = Some PENDING_ALIVE \<longrightarrow> isTileAlive s (JInt x) (JInt y) = Inr False) \<and>
         (cell s x y = Some DEAD \<longrightarrow> isTileAlive s (JInt x) (JInt y) = Inr False)"
  using assms
  by (simp add: isTileAlive_JInt in_grid_def counts_alive_def
      DEAD_def ALIVE_def PENDING_DEAD_def PENDING_ALIVE_def)

theorem isTileAlive_iff_witness:
  "in_grid 12 12 \<and> isTileAlive blinker (JInt 12) (JInt 12) = Inr True \<and>
   in_grid 0 0 \<and> isTileAlive blinker (JInt 0) (JInt 0) = Inr False \<and>
   cell all_pending_alive 0 0 = Some PENDING_ALIVE \<and>
   isTileAlive all_pending_alive (JInt 0) (JInt 0) = Inr False"
  using isTileAlive_iff [OF in_grid_simps(3), of blinker]
    isTileAlive_iff [OF in_grid_simps(1), of blinker]
    isTileAlive_iff [OF in_grid_simps(1), of all_pending_alive]
  by (simp add: in_grid_simps cell_blinker cell_all_pending_alive
      DEAD_def ALIVE_def PENDING_DEAD_def PENDING_ALIVE_def)

text \<open>
  C8, as the code has it. Reading \<open>board[x][y]\<close> and \<open>setTile(x, y, v)\<close>
  raise a \<open>TypeError\<close>, the only exception of the script, exactly when \<open>x\<close>
  is not an integer in \<open>[0, NUM_TILES_WIDE)\<close>. When it is, neither raises,
  whatever \<open>y\<close>: the read returns what is stored under \<open>y\<close> and
  \<open>setTile\<close> stores \<open>v\<close> there, also for a \<open>y\<close> outside
  \<open>[0, NUM_TILES_HIGH)\<close>.
\<close>

theorem accessors_row_checked:
  "(\<not> (\<exists>i. x = JInt i \<and> 0 \<le> i \<and> i < NUM_TILES_WIDE) \<longrightarrow>
      board_get s x y = Inl TypeError \<and> setTile x y v s = Inl TypeError) \<and>
   (\<forall>i. x = JInt i \<and> 0 \<le> i \<and> i < NUM_TILES_WIDE \<longrightarrow>
      board_get s x y = Inr (board s i y) \<and>
      (\<exists>s'. setTile x y v s = Inr s' \<and> board_get s' x y = Inr (Some v) \<and>
         board s' = (board s)(i := (board s i)(y := Some v))))"
proof (intro conjI impI allI)
  assume "\<not> (\<exists>i. x = JInt i \<and> 0 \<le> i \<and> i < NUM_TILES_WIDE)"
  then have "board_row x = None" by (simp add: board_row_None_iff)
  then show "board_get s x y = Inl TypeError" "setTile x y v s = Inl TypeError"
    by (simp_all add: board_get_def setTile_def)
next
  fix i assume "x = JInt i \<and> 0 \<le> i \<and> i < NUM_TILES_WIDE"
  then have r: "board_row x = Some i" by (simp add: board_row_JInt)
  then show "board_get s x y = Inr (board s i y)" by (simp add: board_get_def)
  from setTile_row [OF r, of y v s] r
  show "\<exists>s'. setTile x y v s = Inr s' \<and> board_get s' x y = Inr (Some v) \<and>
         board s' = (board s)(i := (board s i)(y := Some v))"
    by (auto simp: board_get_def)
qed

theorem accessors_row_checked_witness:
  "board_get fresh (JInt 25) (JInt 0) = Inl TypeError \<and>
   setTile (JInt (- 1)) (JInt 0) ALIVE fresh = Inl TypeError \<and>
   setTile NaN (JInt 0) ALIVE fresh = Inl TypeError \<and>
   board_get fresh (JInt 0) (JInt 25) = Inr None \<and>
   board_get (handle (setTile (JInt 0) (JInt 25) ALIVE) fresh) (JInt 0) (JInt 25) =
     Inr (Some ALIVE)"
proof -
  have b: "board fresh 0 (JInt 25) = None" by (simp add: fresh_def)
  show ?thesis
    using accessors_row_checked [of "JInt 25" fresh "JInt 0" ALIVE]
      accessors_row_checked [of "JInt (- 1)" fresh "JInt 0" ALIVE]
      accessors_row_checked [of NaN fresh "JInt 0" ALIVE]
      accessors_row_checked [of "JInt 0" fresh "JInt 25" ALIVE] b
    by (auto simp: NUM_TILES_WIDE_def handle_def)
qed

text \<open>
  C8 as the specification words it fails. The accessors check nothing
  themselves. With \<open>x = 0\<close> and \<open>y = 25\<close>,
  outside the grid, the read returns \<open>undefined\<close> and \<open>setTile\<close> stores
  the status: neither fails.
\<close>

theorem accessors_out_of_range_counterexample:
  "\<not> in_grid 0 25 \<and> \<not> (0 \<le> (25::int) \<and> 25 < NUM_TILES_HIGH) \<and>
   board_get fresh (JInt 0) (JInt 25) = Inr None \<and>
   \<not> isl (setTile (JInt 0) (JInt 25) DEAD fresh) \<and>
   board (projr (setTile (JInt 0) (JInt 25) DEAD fresh)) 0 (JInt 25) = Some DEAD"
  by (simp add: in_grid_simps NUM_TILES_HIGH_def board_get_def board_row_JInt NUM_TILES_WIDE_def
      setTile_def Let_def fresh_def)




text \<open>
  C10. The tick depends on the board and the flag only. Two states with the same
  board and the same flag, whatever else differs (canvas size, drawing history,
  button text, earlier writes), both complete \<open>playGame\<close>, with equal boards,
  equal flags and the same sequence of writes made during the tick.
\<close>

theorem playGame_deterministic:
  assumes "board s1 = board s2" and "isPlaying s1 = isPlaying s2"
  shows "\<exists>t1 t2 ws. playGame s1 = Inr t1 \<and> playGame s2 = Inr t2 \<and>
           board t1 = board t2 \<and> isPlaying t1 = isPlaying t2 \<and>
           writes t1 = writes s1 @ ws \<and> writes t2 = writes s2 @ ws"
  using playGame_same_run [OF assms] unfolding same_run_def by blast

theorem playGame_deterministic_witness:
  "board blinker = board other_page \<and> isPlaying blinker = isPlaying other_page \<and>
   CANVAS_WIDTH blinker \<noteq> CANVAS_WIDTH other_page \<and> writes blinker \<noteq> writes other_page \<and>
   board (handle playGame blinker) = board (handle playGame other_page) \<and>
   writes (handle playGame other_page) = writes other_page @ writes (handle playGame blinker)"
proof -
  have e: "board blinker = board other_page" "isPlaying blinker = isPlaying other_page"
    "writes blinker = []" "writes other_page = [(JInt 0, JInt 0, DEAD)]"
    "CANVAS_WIDTH blinker = 500" "CANVAS_WIDTH other_page = 250"
    by (simp_all add: other_page_def blinker_def fresh_def)
  from playGame_deterministic [OF e(1,2)] obtain t1 t2 ws where
    "playGame blinker = Inr t1" "playGame other_page = Inr t2" "board t1 = board t2"
    "writes t1 = writes blinker @ ws" "writes t2 = writes other_page @ ws"
    by blast
  then show ?thesis using e by (simp add: handle_def)
qed

end
